theory Spec2Isabelle
  imports Main "HOL-Library.Word" "HOL-Library.Sublist" "HOL-Library.AList"
begin

section \<open>JavaScript strings\<close>

text \<open>
  A JavaScript string is a sequence of 16-bit code units. All string operations of
  \<^verbatim>\<open>DocxDiff.node.ts\<close> (\<^verbatim>\<open>split\<close>, \<^verbatim>\<open>trim\<close>, \<^verbatim>\<open>+=\<close>, \<^verbatim>\<open>===\<close>) work on code units, since no
  regular expression of the file carries the \<^verbatim>\<open>u\<close> flag.
\<close>

type_synonym cu = "16 word"
type_synonym jsstring = "cu list"

definition js :: "string \<Rightarrow> jsstring" where
  \<comment> \<open>an ASCII literal of the source as code units\<close>
  "js s = map of_char s"

definition isSpace :: "cu \<Rightarrow> bool" where
  \<comment> \<open>the class \<^verbatim>\<open>\s\<close>, which is also what \<^verbatim>\<open>trim\<close> strips: WhiteSpace and LineTerminator\<close>
  "isSpace c \<longleftrightarrow>
     c \<in> {0x9, 0xA, 0xB, 0xC, 0xD, 0x20, 0xA0, 0x1680, 0x2028, 0x2029, 0x202F, 0x205F, 0x3000, 0xFEFF}
     \<or> (0x2000 \<le> c \<and> c \<le> 0x200A)"

definition isWordChar :: "cu \<Rightarrow> bool" where
  \<comment> \<open>the class \<^verbatim>\<open>\w\<close> without the \<^verbatim>\<open>i\<close> and \<^verbatim>\<open>u\<close> flags: \<^verbatim>\<open>[A-Za-z0-9_]\<close>\<close>
  "isWordChar c \<longleftrightarrow>
     (0x30 \<le> c \<and> c \<le> 0x39) \<or> (0x41 \<le> c \<and> c \<le> 0x5A) \<or> c = 0x5F \<or> (0x61 \<le> c \<and> c \<le> 0x7A)"

definition trim :: "jsstring \<Rightarrow> jsstring" where
  "trim s = rev (dropWhile isSpace (rev (dropWhile isSpace s)))"

definition substring :: "jsstring \<Rightarrow> nat \<Rightarrow> nat \<Rightarrow> jsstring" where
  \<comment> \<open>the substring from index \<open>p\<close> (inclusive) to index \<open>q\<close> (exclusive)\<close>
  "substring S p q = take (q - p) (drop p S)"

subsection \<open>The separator \<^verbatim>\<open>/(\s+|\b)/\<close>\<close>

definition wordBoundary :: "jsstring \<Rightarrow> nat \<Rightarrow> bool" where
  \<comment> \<open>the assertion \<^verbatim>\<open>\b\<close> at index \<open>q\<close>: exactly one of the two neighbours is a word character\<close>
  "wordBoundary S q \<longleftrightarrow>
     ((0 < q \<and> q - 1 < length S \<and> isWordChar (S ! (q - 1)))
       \<noteq> (q < length S \<and> isWordChar (S ! q)))"

definition matchSep :: "jsstring \<Rightarrow> nat \<Rightarrow> nat option" where
  \<comment> \<open>a sticky match of \<^verbatim>\<open>(\s+|\b)\<close> at index \<open>q\<close>: the end index of the match, if there is one.
      The first alternative takes the longest run of white space starting at \<open>q\<close>; the
      second is the empty match at a word boundary.\<close>
  "matchSep S q =
     (if q < length S \<and> isSpace (S ! q) then Some (q + length (takeWhile isSpace (drop q S)))
      else if wordBoundary S q then Some q
      else None)"

subsection \<open>\<^verbatim>\<open>String.prototype.split\<close> with that separator\<close>

text \<open>
  The loop of \<^verbatim>\<open>RegExp.prototype[Symbol.split]\<close> (ECMAScript 2015 and later) with no limit:
  \<open>p\<close> is the end of the last separator taken, \<open>q\<close> the index where a match is tried. An
  empty match at \<open>p\<close> is skipped; any other match pushes the text before it and then the
  text captured by the group, which here is the whole match.
\<close>

function splitLoop :: "jsstring \<Rightarrow> nat \<Rightarrow> nat \<Rightarrow> jsstring list" where
  "splitLoop S p q =
     (if q < length S then
        (case matchSep S q of
           None \<Rightarrow> splitLoop S p (q + 1)
         | Some z \<Rightarrow>
             (let e = min z (length S) in
              if e = p then splitLoop S p (q + 1)
              else substring S p q # substring S q e # splitLoop S e e))
      else [substring S p (length S)])"
  by pat_completeness auto

termination splitLoop
proof (relation "measure (\<lambda>(S, p, q). 2 * (length S - q) + (if p = q then 0 else 1))", goal_cases)
  case 1
  show ?case by simp
next
  case (2 S p q)
  then show ?case by (simp split: if_splits) arith
next
  case (3 S p q z e)
  then show ?case by (simp split: if_splits) arith
next
  case (4 S p q z e)
  from 4(2) have "q \<le> z" by (auto simp: matchSep_def split: if_splits)
  with 4(1,3) have "q \<le> e" by simp
  with 4(1,4) show ?case by (auto split: if_splits)
qed

definition regexSplit :: "jsstring \<Rightarrow> jsstring list" where
  \<comment> \<open>\<^verbatim>\<open>text.split(/(\s+|\b)/)\<close>; for the empty string the result is empty if the separator
      matches it and the one empty string otherwise\<close>
  "regexSplit S =
     (if S = [] then (case matchSep S 0 of None \<Rightarrow> [S] | Some z \<Rightarrow> [])
      else splitLoop S 0 0)"

definition splitChars :: "jsstring \<Rightarrow> jsstring list" where
  \<comment> \<open>\<^verbatim>\<open>a.split('')\<close>: one string per code unit\<close>
  "splitChars S = map (\<lambda>c. [c]) S"

section \<open>Tokenizer\<close>

definition tokenizeWords :: "jsstring \<Rightarrow> jsstring list" where
  "tokenizeWords text = filter (\<lambda>s. s \<noteq> []) (regexSplit text)"

datatype granularity = GWord | GChar

definition tokenize :: "jsstring \<Rightarrow> granularity \<Rightarrow> jsstring list" where
  \<comment> \<open>\<^verbatim>\<open>options.granularity === 'char' ? a.split('') : tokenizeWords(a)\<close> in \<^verbatim>\<open>diffParagraph\<close>\<close>
  "tokenize a g = (if g = GChar then splitChars a else tokenizeWords a)"

section \<open>Sequence differ\<close>

datatype optype = Eq | Ins | Del

datatype 'a op = Op (type: optype) (val: 'a)

text \<open>
  The table \<^verbatim>\<open>dp\<close> has \<open>m + 1\<close> rows of \<open>n + 1\<close> zeros and is filled in place, row \<open>m - 1\<close>
  down to row 0 and, within a row, column \<open>n - 1\<close> down to column 0. The loop counters of
  the two functions below are one more than the index the iteration works on.
\<close>

fun fillInner :: "'a list \<Rightarrow> 'a list \<Rightarrow> nat \<Rightarrow> nat \<Rightarrow> nat list list \<Rightarrow> nat list list" where
  "fillInner a b i 0 dp = dp"
| "fillInner a b i (Suc j) dp =
     fillInner a b i j
       (dp[i := (dp ! i)[j := (if a ! i = b ! j then dp ! (i + 1) ! (j + 1) + 1
                                else max (dp ! (i + 1) ! j) (dp ! i ! (j + 1)))]])"

fun fillOuter :: "'a list \<Rightarrow> 'a list \<Rightarrow> nat \<Rightarrow> nat list list \<Rightarrow> nat list list" where
  "fillOuter a b 0 dp = dp"
| "fillOuter a b (Suc i) dp = fillOuter a b i (fillInner a b i (length b) dp)"

definition dpTable :: "'a list \<Rightarrow> 'a list \<Rightarrow> nat list list" where
  "dpTable a b =
     fillOuter a b (length a) (replicate (length a + 1) (replicate (length b + 1) 0))"

function delLoop :: "'a list \<Rightarrow> nat \<Rightarrow> 'a op list" where
  \<comment> \<open>\<^verbatim>\<open>while (i < m) ops.push({ type: 'del', value: a[i++] })\<close>\<close>
  "delLoop a i = (if i < length a then Op Del (a ! i) # delLoop a (i + 1) else [])"
  by pat_completeness auto
termination
  by (relation "measure (\<lambda>(a, i). length a - i)") auto

function insLoop :: "'a list \<Rightarrow> nat \<Rightarrow> 'a op list" where
  \<comment> \<open>\<^verbatim>\<open>while (j < n) ops.push({ type: 'ins', value: b[j++] })\<close>\<close>
  "insLoop b j = (if j < length b then Op Ins (b ! j) # insLoop b (j + 1) else [])"
  by pat_completeness auto
termination
  by (relation "measure (\<lambda>(b, j). length b - j)") auto

function backtrack :: "'a list \<Rightarrow> 'a list \<Rightarrow> nat list list \<Rightarrow> nat \<Rightarrow> nat \<Rightarrow> 'a op list" where
  \<comment> \<open>the three \<^verbatim>\<open>while\<close> statements of \<^verbatim>\<open>diffTokens\<close>; the result is what they push onto \<^verbatim>\<open>ops\<close>, in order\<close>
  "backtrack a b dp i j =
     (if i < length a \<and> j < length b then
        (if a ! i = b ! j then Op Eq (a ! i) # backtrack a b dp (i + 1) (j + 1)
         else if dp ! (i + 1) ! j \<ge> dp ! i ! (j + 1) then Op Del (a ! i) # backtrack a b dp (i + 1) j
         else Op Ins (b ! j) # backtrack a b dp i (j + 1))
      else delLoop a i @ insLoop b j)"
  by pat_completeness auto
termination
  by (relation "measure (\<lambda>(a, b, dp, i, j). (length a - i) + (length b - j))") auto

definition diffTokens :: "'a list \<Rightarrow> 'a list \<Rightarrow> 'a op list" where
  "diffTokens a b = backtrack a b (dpTable a b) 0 0"

declare splitLoop.simps [simp del] delLoop.simps [simp del] insLoop.simps [simp del]
  backtrack.simps [simp del]

subsection \<open>Reference notions for the differ\<close>

text \<open>
  These are not part of the program. \<open>lcsLength\<close> is the length of a longest common
  subsequence, by definition; \<open>lcsLen\<close> is the usual recursion for it, and \<open>tblInv\<close> says
  that the rows \<open>k\<close> and below of a table hold the values of that recursion on the suffixes.
\<close>

definition lcsLength :: "'a list \<Rightarrow> 'a list \<Rightarrow> nat" where
  "lcsLength A B = Max (length ` {s. subseq s A \<and> subseq s B})"

fun lcsLen :: "'a list \<Rightarrow> 'a list \<Rightarrow> nat" where
  "lcsLen [] ys = 0"
| "lcsLen (x # xs) [] = 0"
| "lcsLen (x # xs) (y # ys) =
     (if x = y then lcsLen xs ys + 1 else max (lcsLen xs (y # ys)) (lcsLen (x # xs) ys))"

definition tblInv :: "'a list \<Rightarrow> 'a list \<Rightarrow> nat list list \<Rightarrow> nat \<Rightarrow> bool" where
  "tblInv a b dp k \<longleftrightarrow>
     length dp = length a + 1 \<and>
     (\<forall>r \<le> length a. length (dp ! r) = length b + 1 \<and> dp ! r ! length b = 0) \<and>
     (\<forall>r j. k \<le> r \<and> r \<le> length a \<and> j \<le> length b \<longrightarrow> dp ! r ! j = lcsLen (drop r a) (drop j b))"

section \<open>Parsed XML as JavaScript values\<close>

text \<open>
  The XML parser (with \<^verbatim>\<open>preserveOrder: false\<close>) returns plain JavaScript values: an element
  is an object whose keys are its attribute names, its child tag names and \<^verbatim>\<open>#text\<close>; a
  tag that occurs several times under one parent is an array; text is a string, a number
  or a boolean. An object is kept as the list of its properties in their order, with
  distinct keys. Of a number the program only observes whether it is zero.
\<close>

datatype jsval =
    Undefined
  | Null
  | Bool bool
  | Num int
  | Str jsstring
  | Arr "jsval list"
  | Obj "(jsstring \<times> jsval) list"

datatype error = Error jsstring | TypeError

fun truthy :: "jsval \<Rightarrow> bool" where
  "truthy Undefined = False"
| "truthy Null = False"
| "truthy (Bool b) = b"
| "truthy (Num n) = (n \<noteq> 0)"
| "truthy (Str s) = (s \<noteq> [])"
| "truthy (Arr vs) = True"
| "truthy (Obj kvs) = True"

definition falsy :: "jsval \<Rightarrow> bool" where
  \<comment> \<open>\<^verbatim>\<open>!v\<close>\<close>
  "falsy v = (\<not> truthy v)"

fun nullish :: "jsval \<Rightarrow> bool" where
  "nullish Undefined = True"
| "nullish Null = True"
| "nullish v = False"

fun isArray :: "jsval \<Rightarrow> bool" where
  "isArray (Arr vs) = True"
| "isArray v = False"

fun isString :: "jsval \<Rightarrow> bool" where
  \<comment> \<open>\<^verbatim>\<open>typeof v === 'string'\<close>\<close>
  "isString (Str s) = True"
| "isString v = False"

fun elems :: "jsval \<Rightarrow> jsval list" where
  "elems (Arr vs) = vs"
| "elems v = []"

fun strOf :: "jsval \<Rightarrow> jsstring" where
  "strOf (Str s) = s"
| "strOf v = []"

fun get :: "jsval \<Rightarrow> jsstring \<Rightarrow> jsval" where
  \<comment> \<open>the property read \<^verbatim>\<open>v.k\<close> for the names the program reads (\<^verbatim>\<open>r\<close>, \<^verbatim>\<open>t\<close>, \<^verbatim>\<open>#text\<close>,
      \<^verbatim>\<open>ins\<close>, \<^verbatim>\<open>del\<close>, \<^verbatim>\<open>moveFrom\<close>, \<^verbatim>\<open>moveTo\<close>, \<^verbatim>\<open>document\<close>, \<^verbatim>\<open>body\<close>, \<^verbatim>\<open>p\<close>), none of
      which a string, a number, a boolean or an array has. On \<^verbatim>\<open>undefined\<close> and \<^verbatim>\<open>null\<close>
      JavaScript throws instead; \<open>paragraphText\<close>, the one place where the program can
      read a property of such a value, checks for it before it calls \<open>get\<close>.\<close>
  "get (Obj kvs) k = (case map_of kvs k of Some v \<Rightarrow> v | None \<Rightarrow> Undefined)"
| "get v k = Undefined"

definition optGet :: "jsval \<Rightarrow> jsstring \<Rightarrow> jsval" where
  \<comment> \<open>\<^verbatim>\<open>v?.k\<close>\<close>
  "optGet v k = (if nullish v then Undefined else get v k)"

definition idx :: "jsval list \<Rightarrow> nat \<Rightarrow> jsval" where
  \<comment> \<open>\<^verbatim>\<open>xs[i]\<close>: \<^verbatim>\<open>undefined\<close> beyond the end\<close>
  "idx xs i = (if i < length xs then xs ! i else Undefined)"

definition orElse :: "jsval \<Rightarrow> jsval \<Rightarrow> jsval" where
  \<comment> \<open>\<^verbatim>\<open>a || b\<close>\<close>
  "orElse a b = (if truthy a then a else b)"

definition nullishOr :: "jsval \<Rightarrow> jsval \<Rightarrow> jsval" where
  \<comment> \<open>\<^verbatim>\<open>a ?? b\<close>\<close>
  "nullishOr a b = (if nullish a then b else a)"

definition digit :: "nat \<Rightarrow> cu" where
  "digit d = js ''0123456789'' ! d"

function showNat :: "nat \<Rightarrow> jsstring" where
  \<comment> \<open>\<^verbatim>\<open>String(n)\<close> for a natural number\<close>
  "showNat n = (if n < 10 then [digit n] else showNat (n div 10) @ [digit (n mod 10)])"
  by pat_completeness auto
termination
  by (relation "measure (\<lambda>n. n)") auto

fun spread :: "jsval \<Rightarrow> (jsstring \<times> jsval) list" where
  \<comment> \<open>the own enumerable properties that \<^verbatim>\<open>{ ...v }\<close> copies: those of an object, the
      indexed elements of an array, the indexed code units of a string, none otherwise\<close>
  "spread (Obj kvs) = kvs"
| "spread (Arr vs) = map (\<lambda>i. (showNat i, vs ! i)) [0..<length vs]"
| "spread (Str s) = map (\<lambda>i. (showNat i, Str [s ! i])) [0..<length s]"
| "spread v = []"

section \<open>Options\<close>

datatype policy = Ignore | Fail

record ResourceLimits =
  maxTotalUnzippedBytes :: int
  maxEntries :: int
  maxEntrySize :: int
  maxTokensPerParagraph :: int

record Options =
  granularity :: granularity
  suppressWhitespaceOnly :: bool
  includeLists :: bool
  includeTables :: bool
  includeTextBoxes :: bool
  includeHeadersFooters :: bool
  existingTrackedRevisions :: policy
  limits :: "ResourceLimits option"

definition defaultLimits :: ResourceLimits where
  "defaultLimits =
     \<lparr> maxTotalUnzippedBytes = 50 * 1024 * 1024, maxEntries = 2000,
       maxEntrySize = 5 * 1024 * 1024, maxTokensPerParagraph = 4000 \<rparr>"

section \<open>Revision stripper\<close>

text \<open>
  \<^verbatim>\<open>stripTrackedChanges\<close> rewrites the tree in place and returns it. Each parsed tree is
  owned by one call and has no shared parts, so the model returns the rewritten tree.
  The value of a key is replaced by the mapped array if it is an array, by the stripped
  value if its \<^verbatim>\<open>typeof\<close> is \<^verbatim>\<open>'object'\<close> (which includes \<^verbatim>\<open>null\<close>), and is left alone otherwise.
  An array node has none of the four keys, and its own keys are its indices.
\<close>

fun stripTrackedChanges :: "jsval \<Rightarrow> jsval" where
  "stripTrackedChanges (Obj kvs) =
     (let content = orElse (get (Obj kvs) (js ''ins''))
                     (orElse (get (Obj kvs) (js ''del''))
                       (orElse (get (Obj kvs) (js ''moveFrom'')) (get (Obj kvs) (js ''moveTo''))))
      in if truthy content then
           (if isArray (get content (js ''r'')) then Obj [(js ''r'', get content (js ''r''))]
            else content)
         else Obj (map (\<lambda>(k, v). (k, case v of
                                          Arr ws \<Rightarrow> Arr (map stripTrackedChanges ws)
                                        | Obj ps \<Rightarrow> stripTrackedChanges v
                                        | _ \<Rightarrow> v)) kvs))"
| "stripTrackedChanges (Arr vs) =
     Arr (map (\<lambda>v. case v of
                     Arr ws \<Rightarrow> Arr (map stripTrackedChanges ws)
                   | Obj ps \<Rightarrow> stripTrackedChanges v
                   | _ \<Rightarrow> v) vs)"
| "stripTrackedChanges v = v"

section \<open>Run synthesizer\<close>

text \<open>
  \<^verbatim>\<open>nowIso()\<close> reads the clock. The reading is the parameter \<open>now\<close> of every function that
  reaches it, the same for all the calls of one invocation.
\<close>

definition textNode :: "jsstring \<Rightarrow> jsval" where
  \<comment> \<open>\<^verbatim>\<open>{ '@_xml:space': 'preserve', '#text': text }\<close>\<close>
  "textNode text = Obj [(js ''@_xml:space'', Str (js ''preserve'')), (js ''#text'', Str text)]"

definition plainRun :: "jsstring \<Rightarrow> jsval" where
  \<comment> \<open>\<^verbatim>\<open>{ t: { '@_xml:space': 'preserve', '#text': text } }\<close>\<close>
  "plainRun text = Obj [(js ''t'', textNode text)]"

definition delTextRun :: "jsstring \<Rightarrow> jsval" where
  \<comment> \<open>\<^verbatim>\<open>{ delText: { '@_xml:space': 'preserve', '#text': text } }\<close>\<close>
  "delTextRun text = Obj [(js ''delText'', textNode text)]"

definition buildInsRuns :: "jsstring \<Rightarrow> jsstring \<Rightarrow> nat \<Rightarrow> jsstring \<Rightarrow> jsval" where
  "buildInsRuns text author n now =
     Obj [(js ''ins'',
           Obj [(js ''id'', Str (showNat n)), (js ''author'', Str author), (js ''date'', Str now),
                (js ''r'', Arr [plainRun text])])]"

definition buildDelRuns :: "jsstring \<Rightarrow> jsstring \<Rightarrow> nat \<Rightarrow> jsstring \<Rightarrow> jsval" where
  "buildDelRuns text author n now =
     Obj [(js ''del'',
           Obj [(js ''id'', Str (showNat n)), (js ''author'', Str author), (js ''date'', Str now),
                (js ''r'', Arr [delTextRun text])])]"

record mergeState =
  outRuns :: "jsval list"
  insBuf :: jsstring
  delBuf :: jsstring
  nextId :: nat

definition flush :: "jsstring \<Rightarrow> jsstring \<Rightarrow> mergeState \<Rightarrow> mergeState" where
  "flush author now s =
     (let s1 = (if delBuf s \<noteq> []
                then s\<lparr> outRuns := outRuns s @ [buildDelRuns (delBuf s) author (nextId s) now],
                        nextId := nextId s + 1, delBuf := [] \<rparr>
                else s)
      in if insBuf s1 \<noteq> []
         then s1\<lparr> outRuns := outRuns s1 @ [buildInsRuns (insBuf s1) author (nextId s1) now],
                  nextId := nextId s1 + 1, insBuf := [] \<rparr>
         else s1)"

fun mergeStep :: "jsstring \<Rightarrow> jsstring \<Rightarrow> mergeState \<Rightarrow> jsstring op \<Rightarrow> mergeState" where
  \<comment> \<open>the body of the \<^verbatim>\<open>for\<close> statement of \<^verbatim>\<open>mergeRuns\<close>; its three tests exclude each other\<close>
  "mergeStep author now s (Op Eq v) =
     (let s1 = flush author now s
      in s1\<lparr> outRuns := outRuns s1 @ [Obj [(js ''r'', plainRun v)]] \<rparr>)"
| "mergeStep author now s (Op Ins v) = s\<lparr> insBuf := insBuf s @ v \<rparr>"
| "mergeStep author now s (Op Del v) = s\<lparr> delBuf := delBuf s @ v \<rparr>"

definition mergeRuns :: "jsstring op list \<Rightarrow> jsstring \<Rightarrow> jsstring \<Rightarrow> jsval list" where
  "mergeRuns ops author now =
     outRuns (flush author now
       (foldl (mergeStep author now) \<lparr> outRuns = [], insBuf = [], delBuf = [], nextId = 1 \<rparr> ops))"

section \<open>Paragraph model\<close>

fun runText :: "jsval \<Rightarrow> error + jsstring" where
  \<comment> \<open>what one run adds to \<^verbatim>\<open>s\<close> in \<^verbatim>\<open>paragraphText\<close>; reading \<^verbatim>\<open>r.t\<close> throws if the run is
      \<^verbatim>\<open>undefined\<close> or \<^verbatim>\<open>null\<close>\<close>
  "runText Undefined = Inl TypeError"
| "runText Null = Inl TypeError"
| "runText r =
     (if isString (get r (js ''t'')) then Inr (strOf (get r (js ''t'')))
      else if truthy (get r (js ''t'')) \<and> isString (get (get r (js ''t'')) (js ''#text''))
      then Inr (strOf (get (get r (js ''t'')) (js ''#text'')))
      else Inr [])"

fun runsText :: "jsval list \<Rightarrow> jsstring \<Rightarrow> error + jsstring" where
  \<comment> \<open>the \<^verbatim>\<open>for\<close> statement of \<^verbatim>\<open>paragraphText\<close>, with the accumulator \<^verbatim>\<open>s\<close>\<close>
  "runsText [] s = Inr s"
| "runsText (r # rs) s = (case runText r of Inl e \<Rightarrow> Inl e | Inr t \<Rightarrow> runsText rs (s @ t))"

fun paragraphText :: "jsval \<Rightarrow> error + jsstring" where
  "paragraphText Undefined = Inl TypeError"
| "paragraphText Null = Inl TypeError"
| "paragraphText p =
     runsText (if isArray (get p (js ''r'')) then elems (get p (js ''r''))
               else if truthy (get p (js ''r'')) then [get p (js ''r'')] else []) []"

definition diffParagraph ::
  "jsval \<Rightarrow> jsval \<Rightarrow> jsstring \<Rightarrow> Options \<Rightarrow> jsstring \<Rightarrow> error + jsval" where
  "diffParagraph baseP revP author options now =
     (case paragraphText baseP of Inl e \<Rightarrow> Inl e | Inr a \<Rightarrow>
      case paragraphText revP of Inl e \<Rightarrow> Inl e | Inr b \<Rightarrow>
        if suppressWhitespaceOnly options \<and> trim a = trim b then Inr revP
        else
          (let tokensA = tokenize a (granularity options);
               tokensB = tokenize b (granularity options);
               ops = diffTokens tokensA tokensB;
               runs = mergeRuns ops author now;
               pOut = AList.update (js ''r'') Undefined (spread revP)
           in Inr (Obj (AList.update (js ''r'')
                   (Arr (map (\<lambda>x. nullishOr (get x (js ''r''))
                                     (nullishOr (get x (js ''ins'')) (get x (js ''del'')))) runs))
                   pOut))))"

section \<open>Paragraph aligner\<close>

definition paragraphsOf :: "jsval \<Rightarrow> jsval list" where
  \<comment> \<open>\<^verbatim>\<open>Array.isArray(c.document?.body?.p) ? c.document.body.p : c.document?.body?.p ? [c.document.body.p] : []\<close>\<close>
  "paragraphsOf c =
     (let p = optGet (optGet (get c (js ''document'')) (js ''body'')) (js ''p'')
      in if isArray p then elems p else if truthy p then [p] else [])"

definition alignAt ::
  "jsval list \<Rightarrow> jsval list \<Rightarrow> jsstring \<Rightarrow> Options \<Rightarrow> jsstring \<Rightarrow> nat \<Rightarrow> error + jsval list" where
  \<comment> \<open>one iteration of the \<^verbatim>\<open>for\<close> statement over the paragraph indices: what it pushes
      onto \<^verbatim>\<open>outParas\<close>\<close>
  "alignAt baseParas revParas author options now i =
     (let bp = idx baseParas i; rp = idx revParas i in
      if falsy bp \<and> truthy rp then
        (case paragraphText rp of Inl e \<Rightarrow> Inl e | Inr text \<Rightarrow>
           Inr [Obj [(js ''p'', Obj [(js ''r'',
                  Arr [idx (elems (get (get (buildInsRuns text author (i + 1) now) (js ''ins'')) (js ''r''))) 0])])]])
      else if truthy bp \<and> falsy rp then
        (case paragraphText bp of Inl e \<Rightarrow> Inl e | Inr text \<Rightarrow>
           Inr [Obj [(js ''p'', Obj [(js ''r'',
                  Arr [idx (elems (get (get (buildDelRuns text author (i + 1) now) (js ''del'')) (js ''r''))) 0])])]])
      else if truthy bp \<and> truthy rp then
        (case diffParagraph bp rp author options now of Inl e \<Rightarrow> Inl e | Inr d \<Rightarrow>
           Inr [Obj [(js ''p'', d)]])
      else Inr [])"

function alignLoop ::
  "jsval list \<Rightarrow> jsval list \<Rightarrow> jsstring \<Rightarrow> Options \<Rightarrow> jsstring \<Rightarrow> nat \<Rightarrow> nat \<Rightarrow> jsval list
     \<Rightarrow> error + jsval list" where
  \<comment> \<open>\<^verbatim>\<open>for (let i = 0; i < maxLen; i++)\<close>, with \<^verbatim>\<open>outParas\<close> as accumulator; an exception
      ends it\<close>
  "alignLoop baseParas revParas author options now maxLen i outParas =
     (if i < maxLen then
        (case alignAt baseParas revParas author options now i of
           Inl e \<Rightarrow> Inl e
         | Inr xs \<Rightarrow> alignLoop baseParas revParas author options now maxLen (i + 1) (outParas @ xs))
      else Inr outParas)"
  by pat_completeness auto
termination
  by (relation "measure (\<lambda>(bs, rs, a, opts, now, maxLen, i, out). maxLen - i)") auto

declare alignLoop.simps [simp del] showNat.simps [simp del]

definition docOut :: "jsval list \<Rightarrow> jsval" where
  "docOut outParas =
     Obj [(js ''document'',
           Obj [(js ''@_xmlns:w'', Str (js ''http://schemas.openxmlformats.org/wordprocessingml/2006/main'')),
                (js ''body'',
                 Obj [(js ''p'', Arr (map (\<lambda>x. get x (js ''p'')) outParas)),
                      (js ''sectPr'', Obj [])])])]"

definition diffTrees :: "jsval \<Rightarrow> jsval \<Rightarrow> jsstring \<Rightarrow> Options \<Rightarrow> jsstring \<Rightarrow> error + jsval" where
  \<comment> \<open>the part of \<^verbatim>\<open>docxDiffTracked\<close> from \<^verbatim>\<open>cleanBase\<close> to \<^verbatim>\<open>docOut\<close>\<close>
  "diffTrees baseDoc revDoc author options now =
     (let cleanBase = stripTrackedChanges baseDoc;
          cleanRev = stripTrackedChanges revDoc;
          baseParas = paragraphsOf cleanBase;
          revParas = paragraphsOf cleanRev;
          maxLen = max (length baseParas) (length revParas)
      in case alignLoop baseParas revParas author options now maxLen 0 [] of
           Inl e \<Rightarrow> Inl e
         | Inr outParas \<Rightarrow> Inr (docOut outParas))"

section \<open>Archive gateway, part codec and package assembler\<close>

text \<open>
  JSZip, the XML parser and builder, and \<^verbatim>\<open>JSON.stringify\<close> are libraries. The program sees
  of a loaded archive the list \<^verbatim>\<open>Object.values(zip.files)\<close> and, for each entry, its name,
  whether it is a folder, \<^verbatim>\<open>_data?.compressedSize\<close> (absent for some entries) and what
  \<^verbatim>\<open>async('string')\<close> resolves to or rejects with. What the libraries compute is the
  environment \<open>env\<close>: \<open>loadAsync\<close> resolves to an archive or rejects, and its \<open>Inl\<close> is the
  text that \<^verbatim>\<open>e.message || e\<close> renders for the rejection; \<open>parse\<close> is \<open>None\<close> where the parser
  throws. The two archives are loaded concurrently, and when both loads reject,
  \<^verbatim>\<open>Promise.all\<close> rejects with the one that settles first: \<open>baseSettlesFirst\<close>.
\<close>

type_synonym buffer = "8 word list"

record zipEntry =
  name :: jsstring
  dir :: bool
  compressedSize :: "int option"
  content :: "error + jsstring"

type_synonym zip = "zipEntry list"

datatype outEntry = Folder | File jsstring

record env =
  loadAsync :: "buffer \<Rightarrow> jsstring + zip"
  baseSettlesFirst :: bool
  parse :: "jsstring \<Rightarrow> jsval option"
  stringify :: "jsval \<Rightarrow> jsstring"
  build :: "jsval \<Rightarrow> jsstring"
  generateAsync :: "(jsstring \<times> outEntry) list \<Rightarrow> buffer"

record DiffInput =
  base :: buffer
  revised :: buffer
  author :: jsstring
  options :: Options

record DiffResult =
  buffer :: buffer
  warnings :: "jsstring list"

fun sizeLoop :: "zipEntry list \<Rightarrow> ResourceLimits \<Rightarrow> int \<Rightarrow> bool" where
  \<comment> \<open>the \<^verbatim>\<open>for\<close> statement of \<^verbatim>\<open>safeLoadDocx\<close> with the running sum \<^verbatim>\<open>approxTotal\<close>: whether
      it throws\<close>
  "sizeLoop [] lim approxTotal = False"
| "sizeLoop (f # fs) lim approxTotal =
     (let t = approxTotal + (case compressedSize f of None \<Rightarrow> 0 | Some n \<Rightarrow> n)
      in if t > maxTotalUnzippedBytes lim * 2 then True else sizeLoop fs lim t)"

definition safeLoadDocx :: "env \<Rightarrow> buffer \<Rightarrow> ResourceLimits \<Rightarrow> jsstring + zip" where
  \<comment> \<open>the parameter \<^verbatim>\<open>warnings\<close> of the source is not used by its body; \<open>Inl\<close> is the message of
      the rejection\<close>
  "safeLoadDocx E buf lim =
     (case loadAsync E buf of
        Inl m \<Rightarrow> Inl m
      | Inr files \<Rightarrow>
          if int (length files) > maxEntries lim then Inl (js ''DOCX too many entries'')
          else if sizeLoop files lim 0 then Inl (js ''DOCX likely exceeds unzip cap'')
          else Inr files)"

definition loadBoth :: "env \<Rightarrow> buffer \<Rightarrow> buffer \<Rightarrow> ResourceLimits \<Rightarrow> jsstring + (zip \<times> zip)" where
  \<comment> \<open>\<^verbatim>\<open>Promise.all([safeLoadDocx(input.base, ...), safeLoadDocx(input.revised, ...)])\<close>: both
      loads run; it resolves when both resolve and rejects with the first rejection\<close>
  "loadBoth E b r lim =
     (case safeLoadDocx E b lim of
        Inr baseZip \<Rightarrow>
          (case safeLoadDocx E r lim of Inr revZip \<Rightarrow> Inr (baseZip, revZip) | Inl m \<Rightarrow> Inl m)
      | Inl m \<Rightarrow>
          (case safeLoadDocx E r lim of
             Inr revZip \<Rightarrow> Inl m
           | Inl m' \<Rightarrow> Inl (if baseSettlesFirst E then m else m')))"

definition zipFile :: "zip \<Rightarrow> jsstring \<Rightarrow> zipEntry option" where
  \<comment> \<open>\<^verbatim>\<open>z.file(path)\<close>: the entry of that name if it is not a folder\<close>
  "zipFile z path = find (\<lambda>f. name f = path \<and> \<not> dir f) z"

definition loadXml :: "env \<Rightarrow> zip \<Rightarrow> jsstring \<Rightarrow> jsstring list \<Rightarrow> error + (jsval \<times> jsstring list)" where
  \<comment> \<open>the result and the list \<^verbatim>\<open>warnings\<close> after the call; \<^verbatim>\<open>null\<close> is \<open>Null\<close>\<close>
  "loadXml E z path ws =
     (case zipFile z path of
        None \<Rightarrow> Inr (Null, ws)
      | Some f \<Rightarrow>
          (case content f of
             Inl e \<Rightarrow> Inl e
           | Inr xml \<Rightarrow>
               (case parse E xml of
                  Some v \<Rightarrow> Inr (v, ws)
                | None \<Rightarrow> Inr (Null, ws @ [js ''Malformed '' @ path @ js ''; using raw fallback'']))))"

definition settings :: jsval where
  "settings =
     Obj [(js ''settings'',
           Obj [(js ''@_xmlns:w'', Str (js ''http://schemas.openxmlformats.org/wordprocessingml/2006/main'')),
                (js ''trackRevisions'', Obj [])])]"

definition contentTypes :: jsstring where
  \<open>contentTypes = js (''<?xml version="1.0" encoding="UTF-8" standalone="yes"?>\<newline>'' @
     ''<Types xmlns="http://schemas.openxmlformats.org/package/2006/content-types">\<newline>'' @
     ''  <Default Extension="rels" ContentType="application/vnd.openxmlformats-package.relationships+xml"/>\<newline>'' @
     ''  <Default Extension="xml" ContentType="application/xml"/>\<newline>'' @
     ''  <Override PartName="/word/document.xml" ContentType="application/vnd.openxmlformats-officedocument.wordprocessingml.document.main+xml"/>\<newline>'' @
     ''  <Override PartName="/word/settings.xml" ContentType="application/vnd.openxmlformats-officedocument.wordprocessingml.settings+xml"/>\<newline>'' @
     ''</Types>'')\<close>

definition relsRels :: jsstring where
  \<open>relsRels = js (''<?xml version="1.0" encoding="UTF-8" standalone="yes"?>\<newline>'' @
     ''<Relationships xmlns="http://schemas.openxmlformats.org/package/2006/relationships">\<newline>'' @
     ''  <Relationship Id="rId1" Type="http://schemas.openxmlformats.org/officeDocument/2006/relationships/officeDocument" Target="word/document.xml"/>\<newline>'' @
     ''</Relationships>'')\<close>

definition package :: "env \<Rightarrow> jsval \<Rightarrow> buffer" where
  \<comment> \<open>the files and folders added to the new archive, in order, and its serialisation\<close>
  "package E tree =
     generateAsync E
       [(js ''[Content_Types].xml'', File contentTypes),
        (js ''_rels/'', Folder),
        (js ''_rels/.rels'', File relsRels),
        (js ''word/'', Folder),
        (js ''word/document.xml'', File (build E tree)),
        (js ''word/settings.xml'', File (build E settings))]"

definition docxDiffTracked :: "env \<Rightarrow> jsstring \<Rightarrow> DiffInput \<Rightarrow> error + DiffResult" where
  "docxDiffTracked E now input =
     (let lim = (case limits (options input) of None \<Rightarrow> defaultLimits | Some l \<Rightarrow> l) in
      case loadBoth E (base input) (revised input) lim of
        Inl m \<Rightarrow> Inl (Error (js ''Failed to read DOCX: '' @ m))
      | Inr (baseZip, revZip) \<Rightarrow>
      case loadXml E baseZip (js ''word/document.xml'') [] of
        Inl e \<Rightarrow> Inl e
      | Inr (baseDoc, ws1) \<Rightarrow>
      case loadXml E revZip (js ''word/document.xml'') ws1 of
        Inl e \<Rightarrow> Inl e
      | Inr (revDoc, ws2) \<Rightarrow>
      if falsy baseDoc \<or> falsy revDoc
      then Inl (Error (js ''Missing word/document.xml in one of the DOCX files''))
      else if existingTrackedRevisions (options input) = Fail \<and>
              (sublist (js ''ins'') (stringify E revDoc) \<or> sublist (js ''del'') (stringify E revDoc))
      then Inl (Error (js ''Revised document contains tracked revisions''))
      else
        (case diffTrees baseDoc revDoc (author input) (options input) now of
           Inl e \<Rightarrow> Inl e
         | Inr tree \<Rightarrow> Inr \<lparr> buffer = package E tree, warnings = ws2 \<rparr>))"

section \<open>Example inputs\<close>

definition para :: "string \<Rightarrow> jsval" where
  \<comment> \<open>a paragraph with one run, \<^verbatim>\<open><w:p><w:r><w:t>s</w:t></w:r></w:p>\<close>, as the parser returns it\<close>
  "para s = Obj [(js ''r'', Obj [(js ''t'', Str (js s))])]"

definition para2 :: "string \<Rightarrow> string \<Rightarrow> jsval" where
  \<comment> \<open>a paragraph with two runs\<close>
  "para2 s t = Obj [(js ''r'', Arr [Obj [(js ''t'', Str (js s))], Obj [(js ''t'', Str (js t))]])]"

definition docOf :: "jsval \<Rightarrow> jsval" where
  \<comment> \<open>a document whose body has the paragraphs \<open>p\<close>: one paragraph node, or an array of them\<close>
  "docOf p = Obj [(js ''document'', Obj [(js ''body'', Obj [(js ''p'', p)])])]"

definition nodeOptions :: Options where
  \<comment> \<open>the defaults of the node's parameters\<close>
  "nodeOptions =
     \<lparr> granularity = GWord, suppressWhitespaceOnly = True, includeLists = True,
       includeTables = True, includeTextBoxes = True, includeHeadersFooters = False,
       existingTrackedRevisions = Ignore, limits = Some defaultLimits \<rparr>"

definition tracked :: "nat \<Rightarrow> string \<Rightarrow> string \<Rightarrow> jsval \<Rightarrow> jsval" where
  \<comment> \<open>the element that \<^verbatim>\<open>diffParagraph\<close> puts into \<^verbatim>\<open>pOut.r\<close> for a tracked change\<close>
  "tracked n a d run =
     Obj [(js ''id'', Str (showNat n)), (js ''author'', Str (js a)), (js ''date'', Str (js d)),
          (js ''r'', Arr [run])]"

section \<open>Notions used to state the properties\<close>

definition textOf :: "jsval \<Rightarrow> jsstring" where
  \<comment> \<open>the text of a paragraph whose runs can all be read\<close>
  "textOf p = (case paragraphText p of Inr T \<Rightarrow> T | Inl e \<Rightarrow> [])"

definition perTokenParagraph :: "jsval \<Rightarrow> granularity \<Rightarrow> jsval" where
  \<comment> \<open>the paragraph \<open>p\<close> with \<^verbatim>\<open>r\<close> set to one plain run for each token of its text, and its
      other properties as they are\<close>
  "perTokenParagraph p g =
     Obj (AList.update (js ''r'') (Arr (map plainRun (tokenize (textOf p) g))) (spread p))"

definition bytes :: "string \<Rightarrow> buffer" where
  "bytes s = map of_char s"

definition exampleEnv :: env where
  \<comment> \<open>a small environment for concrete runs: the archive of a buffer has the one entry
      \<^verbatim>\<open>word/document.xml\<close> whose text is the buffer's bytes; the parser throws on an
      unterminated comment and returns a document with the paragraph \<^verbatim>\<open>Hello\<close> otherwise;
      the serialisers return nothing\<close>
  "exampleEnv =
     \<lparr> loadAsync = (\<lambda>buf. Inr [\<lparr> name = js ''word/document.xml'', dir = False,
                                   compressedSize = Some (int (length buf)),
                                   content = Inr (map ucast buf) \<rparr>]),
       baseSettlesFirst = True,
       parse = (\<lambda>xml. if xml = js ''<!--'' then None else Some (docOf (para ''Hello''))),
       stringify = (\<lambda>v. []),
       build = (\<lambda>v. []),
       generateAsync = (\<lambda>files. []) \<rparr>"

section \<open>Properties of the tokenizer\<close>

text \<open>
  Two runs of the model: the split keeps white space and the empty captures of the word
  boundaries, and \<open>tokenizeWords\<close> drops the empty strings.
\<close>

lemma regexSplit_example:
  "regexSplit (js ''ab, cd! '')
     = [js ''ab'', [], js '','', js '' '', js ''cd'', [], js ''!'', js '' '', []]"
  by code_simp

lemma tokenizeWords_example:
  "tokenizeWords (js ''Hello  world, ok'')
     = [js ''Hello'', js ''  '', js ''world'', js '','', js '' '', js ''ok'']"
  by code_simp

lemma substring_append_drop:
  "p \<le> q \<Longrightarrow> q \<le> e \<Longrightarrow> e \<le> length S \<Longrightarrow> substring S p q @ substring S q e @ drop e S = drop p S"
proof -
  assume a: "p \<le> q" "q \<le> e" "e \<le> length S"
  have "substring S q e @ drop e S = drop q S"
    using a by (simp add: substring_def) (metis add_diff_cancel_left' append_take_drop_id drop_drop le_Suc_ex add.commute)
  moreover have "substring S p q @ drop q S = drop p S"
    using a by (simp add: substring_def) (metis add_diff_cancel_left' append_take_drop_id drop_drop le_Suc_ex add.commute)
  ultimately show ?thesis by simp
qed

lemma concat_splitLoop:
  "p \<le> q \<Longrightarrow> q \<le> length S \<Longrightarrow> concat (splitLoop S p q) = drop p S"
proof (induction S p q rule: splitLoop.induct)
  case (1 S p q)
  show ?case
  proof (cases "q < length S")
    case False
    with 1(4,5) show ?thesis by (subst splitLoop.simps) (simp add: substring_def)
  next
    case True
    show ?thesis
    proof (cases "matchSep S q")
      case None
      with True 1(1)[OF True None] 1(4,5) show ?thesis by (subst splitLoop.simps) simp
    next
      case (Some z)
      define e where "e = min z (length S)"
      from Some have "q \<le> z" by (auto simp: matchSep_def split: if_splits)
      with True have qe: "q \<le> e" "e \<le> length S" by (simp_all add: e_def)
      show ?thesis
      proof (cases "e = p")
        case True
        with \<open>q < length S\<close> Some 1(2)[OF \<open>q < length S\<close> Some e_def True] 1(4,5) show ?thesis
          by (subst splitLoop.simps) (simp add: e_def)
      next
        case False
        have "concat (splitLoop S e e) = drop e S"
          using 1(3)[OF \<open>q < length S\<close> Some e_def False] qe by simp
        with \<open>q < length S\<close> Some False substring_append_drop[OF 1(4) qe] show ?thesis
          by (subst splitLoop.simps) (simp add: e_def[symmetric] Let_def)
      qed
    qed
  qed
qed

lemma concat_filter_nonempty: "concat (filter (\<lambda>s. s \<noteq> []) xs) = concat xs"
  by (induction xs) auto

lemma concat_tokenizeWords: "concat (tokenizeWords T) = T"
proof -
  have "concat (regexSplit T) = T"
    using concat_splitLoop[of 0 0 T] by (simp add: regexSplit_def split: option.splits)
  then show ?thesis by (simp add: tokenizeWords_def concat_filter_nonempty)
qed

lemma concat_splitChars: "concat (splitChars T) = T"
  by (simp add: splitChars_def)

text \<open>
  C2. For every text \<open>T\<close> and both granularities, the tokens of \<open>tokenize T g\<close>, concatenated
  in order, are exactly \<open>T\<close>: nothing is lost, duplicated or trimmed, and separator white
  space is kept as tokens.
\<close>

theorem tokenize_roundtrip: "concat (tokenize T g) = T"
proof (cases g)
  case GChar
  then show ?thesis by (simp add: tokenize_def concat_splitChars)
next
  case GWord
  then show ?thesis by (simp add: tokenize_def concat_tokenizeWords)
qed

section \<open>Properties of the sequence differ\<close>

lemma lcsLen_Nil2 [simp]: "lcsLen xs [] = 0"
  by (cases xs) simp_all

lemma lcsLen_drop:
  assumes "i < length a" "j < length b"
  shows "lcsLen (drop i a) (drop j b) =
           (if a ! i = b ! j then lcsLen (drop (i + 1) a) (drop (j + 1) b) + 1
            else max (lcsLen (drop (i + 1) a) (drop j b)) (lcsLen (drop i a) (drop (j + 1) b)))"
proof -
  have "drop i a = a ! i # drop (i + 1) a" "drop j b = b ! j # drop (j + 1) b"
    using assms by (simp_all add: Cons_nth_drop_Suc)
  then show ?thesis by (metis lcsLen.simps(3))
qed

lemma fillInner_inv:
  assumes "tblInv a b dp (i + 1)" "i < length a" "k \<le> length b"
    and "\<forall>j. k \<le> j \<and> j \<le> length b \<longrightarrow> dp ! i ! j = lcsLen (drop i a) (drop j b)"
  shows "tblInv a b (fillInner a b i k dp) i"
  using assms
proof (induction k arbitrary: dp)
  case 0
  have "dp ! r ! j = lcsLen (drop r a) (drop j b)" if "i \<le> r" "r \<le> length a" "j \<le> length b" for r j
  proof (cases "r = i")
    case True
    with 0(4) that show ?thesis by simp
  next
    case False
    with that have "i + 1 \<le> r" by simp
    with 0(1) that show ?thesis unfolding tblInv_def by blast
  qed
  with 0(1) show ?case
    unfolding tblInv_def by simp
next
  case (Suc j)
  let ?v = "if a ! i = b ! j then dp ! (i + 1) ! (j + 1) + 1
            else max (dp ! (i + 1) ! j) (dp ! i ! (j + 1))"
  let ?dp = "dp[i := (dp ! i)[j := ?v]]"
  from Suc.prems have j: "j < length b" by simp
  from Suc.prems(1,2) have len: "length dp = length a + 1" "length (dp ! i) = length b + 1"
    unfolding tblInv_def by auto
  have v: "?v = lcsLen (drop i a) (drop j b)"
  proof -
    have "dp ! (i + 1) ! (j + 1) = lcsLen (drop (i + 1) a) (drop (j + 1) b)"
      "dp ! (i + 1) ! j = lcsLen (drop (i + 1) a) (drop j b)"
      using Suc.prems(1,2) j unfolding tblInv_def by auto
    moreover have "dp ! i ! (j + 1) = lcsLen (drop i a) (drop (j + 1) b)"
      using Suc.prems(4) j by simp
    ultimately show ?thesis
      using lcsLen_drop[OF Suc.prems(2) j] by simp
  qed
  have row: "?dp ! r = (if r = i then (dp ! i)[j := ?v] else dp ! r)" if "r \<le> length a" for r
    using that len Suc.prems(2) by (simp add: nth_list_update)
  have inv': "tblInv a b ?dp (i + 1)"
    using Suc.prems(1,2) j unfolding tblInv_def
    by (auto simp: nth_list_update)
  have done': "\<forall>j'. j \<le> j' \<and> j' \<le> length b \<longrightarrow> ?dp ! i ! j' = lcsLen (drop i a) (drop j' b)"
  proof (intro allI impI)
    fix j' assume a: "j \<le> j' \<and> j' \<le> length b"
    show "?dp ! i ! j' = lcsLen (drop i a) (drop j' b)"
    proof (cases "j' = j")
      case True
      with v len Suc.prems(2) j show ?thesis by simp
    next
      case False
      with a have "Suc j \<le> j'" by simp
      with a Suc.prems(4) have "dp ! i ! j' = lcsLen (drop i a) (drop j' b)" by simp
      with False len Suc.prems(2) show ?thesis by simp
    qed
  qed
  from Suc.IH[OF inv' Suc.prems(2) _ done'] j show ?case by simp
qed

lemma fillOuter_inv:
  "tblInv a b dp k \<Longrightarrow> k \<le> length a \<Longrightarrow> tblInv a b (fillOuter a b k dp) 0"
proof (induction k arbitrary: dp)
  case 0
  then show ?case by simp
next
  case (Suc i)
  have "\<forall>j. length b \<le> j \<and> j \<le> length b \<longrightarrow> dp ! i ! j = lcsLen (drop i a) (drop j b)"
    using Suc.prems unfolding tblInv_def by auto
  with Suc.prems have "tblInv a b (fillInner a b i (length b) dp) i"
    by (intro fillInner_inv) simp_all
  with Suc show ?case by simp
qed

lemma dpTable_inv: "tblInv a b (dpTable a b) 0"
proof -
  let ?row = "replicate (length b + 1) (0::nat)"
  let ?dp = "replicate (length a + 1) ?row"
  have r: "?dp ! r = ?row" if "r \<le> length a" for r
    using that by (simp only: nth_replicate less_Suc_eq_le Suc_eq_plus1[symmetric])
  have c: "?row ! j = 0" if "j \<le> length b" for j
    using that by (simp only: nth_replicate less_Suc_eq_le Suc_eq_plus1[symmetric])
  have "tblInv a b ?dp (length a)"
    unfolding tblInv_def
  proof (intro conjI allI impI)
    show "length ?dp = length a + 1" by simp
  next
    fix r assume "r \<le> length a"
    then show "length (?dp ! r) = length b + 1" by (simp only: r length_replicate)
  next
    fix r assume "r \<le> length a"
    then show "?dp ! r ! length b = 0" by (simp only: r c order_refl)
  next
    fix r j assume "length a \<le> r \<and> r \<le> length a \<and> j \<le> length b"
    then have "r = length a" "j \<le> length b" by simp_all
    then show "?dp ! r ! j = lcsLen (drop r a) (drop j b)" by (simp only: r c order_refl) simp
  qed
  then show ?thesis
    unfolding dpTable_def by (rule fillOuter_inv) simp
qed

lemma dpTable_lcsLen:
  "i \<le> length a \<Longrightarrow> j \<le> length b \<Longrightarrow> dpTable a b ! i ! j = lcsLen (drop i a) (drop j b)"
  using dpTable_inv[of a b] unfolding tblInv_def by simp

lemma delLoop_eq: "delLoop a i = map (Op Del) (drop i a)"
proof (induction a i rule: delLoop.induct)
  case (1 a i)
  show ?case
  proof (cases "i < length a")
    case True
    with 1 show ?thesis by (subst delLoop.simps) (simp add: Cons_nth_drop_Suc[symmetric])
  next
    case False
    then show ?thesis by (subst delLoop.simps) simp
  qed
qed

lemma insLoop_eq: "insLoop b j = map (Op Ins) (drop j b)"
proof (induction b j rule: insLoop.induct)
  case (1 b j)
  show ?case
  proof (cases "j < length b")
    case True
    with 1 show ?thesis by (subst insLoop.simps) (simp add: Cons_nth_drop_Suc[symmetric])
  next
    case False
    then show ?thesis by (subst insLoop.simps) simp
  qed
qed

lemma backtrack_done:
  "\<not> (i < length a \<and> j < length b) \<Longrightarrow>
     backtrack a b dp i j = map (Op Del) (drop i a) @ map (Op Ins) (drop j b)"
  by (rule trans[OF backtrack.simps]) (simp only: if_not_P if_False delLoop_eq insLoop_eq)

lemma backtrack_step:
  "i < length a \<Longrightarrow> j < length b \<Longrightarrow>
     backtrack a b dp i j =
       (if a ! i = b ! j then Op Eq (a ! i) # backtrack a b dp (i + 1) (j + 1)
        else if dp ! (i + 1) ! j \<ge> dp ! i ! (j + 1) then Op Del (a ! i) # backtrack a b dp (i + 1) j
        else Op Ins (b ! j) # backtrack a b dp i (j + 1))"
  by (rule trans[OF backtrack.simps]) simp

lemma backtrack_base:
  "map val (filter (\<lambda>x. type x = Eq \<or> type x = Del) (backtrack a b dp i j)) = drop i a"
proof (induction a b dp i j rule: backtrack.induct)
  case (1 a b dp i j)
  show ?case
  proof (cases "i < length a \<and> j < length b")
    case True
    then have d: "drop i a = a ! i # drop (i + 1) a" by (simp add: Cons_nth_drop_Suc)
    from True 1 show ?thesis
      by (simp add: backtrack_step d)
  next
    case False
    then show ?thesis
      by (simp add: backtrack_done comp_def)
  qed
qed

lemma backtrack_revised:
  "map val (filter (\<lambda>x. type x = Eq \<or> type x = Ins) (backtrack a b dp i j)) = drop j b"
proof (induction a b dp i j rule: backtrack.induct)
  case (1 a b dp i j)
  show ?case
  proof (cases "i < length a \<and> j < length b")
    case True
    then have d: "drop j b = b ! j # drop (j + 1) b" by (simp add: Cons_nth_drop_Suc)
    from True 1 show ?thesis
      by (simp add: backtrack_step d)
  next
    case False
    then show ?thesis
      by (simp add: backtrack_done comp_def)
  qed
qed

lemma backtrack_eq_count:
  "tblInv a b dp 0 \<Longrightarrow> i \<le> length a \<Longrightarrow> j \<le> length b \<Longrightarrow>
    length (filter (\<lambda>x. type x = Eq) (backtrack a b dp i j)) = lcsLen (drop i a) (drop j b)"
proof (induction a b dp i j rule: backtrack.induct)
  case (1 a b dp i j)
  show ?case
  proof (cases "i < length a \<and> j < length b")
    case False
    with 1(5,6) have "drop i a = [] \<or> drop j b = []" by auto
    then have "lcsLen (drop i a) (drop j b) = 0" by auto
    with False show ?thesis
      by (simp add: backtrack_done comp_def)
  next
    case True
    then have ij: "i < length a" "j < length b" by simp_all
    note L = lcsLen_drop[OF ij]
    have dp: "dp ! (i + 1) ! j = lcsLen (drop (i + 1) a) (drop j b)"
      "dp ! i ! (j + 1) = lcsLen (drop i a) (drop (j + 1) b)"
      using 1(4) ij unfolding tblInv_def by auto
    show ?thesis
    proof (cases "a ! i = b ! j")
      case eq: True
      with 1(1)[OF True eq 1(4)] ij L show ?thesis
        by (simp add: backtrack_step)
    next
      case ne: False
      show ?thesis
      proof (cases "dp ! (i + 1) ! j \<ge> dp ! i ! (j + 1)")
        case ge: True
        with 1(2)[OF True ne ge 1(4)] ij L ne dp show ?thesis
          by (simp add: backtrack_step)
      next
        case lt: False
        with 1(3)[OF True ne lt 1(4)] ij L ne dp show ?thesis
          by (simp add: backtrack_step)
      qed
    qed
  qed
qed

lemma lcsLen_common: "\<exists>s. subseq s xs \<and> subseq s ys \<and> length s = lcsLen xs ys"
proof (induction xs ys rule: lcsLen.induct)
  case (3 x xs y ys)
  show ?case
  proof (cases "x = y")
    case True
    with 3(1) obtain s where "subseq s xs" "subseq s ys" "length s = lcsLen xs ys" by blast
    with True have "subseq (x # s) (x # xs) \<and> subseq (x # s) (y # ys) \<and> length (x # s) = lcsLen (x # xs) (y # ys)"
      by simp
    then show ?thesis by blast
  next
    case False
    from 3(2)[OF False] obtain s where s: "subseq s xs" "subseq s (y # ys)" "length s = lcsLen xs (y # ys)" by blast
    from 3(3)[OF False] obtain t where t: "subseq t (x # xs)" "subseq t ys" "length t = lcsLen (x # xs) ys" by blast
    show ?thesis
    proof (cases "lcsLen xs (y # ys) \<ge> lcsLen (x # xs) ys")
      case True
      with s False have "subseq s (x # xs) \<and> subseq s (y # ys) \<and> length s = lcsLen (x # xs) (y # ys)"
        by (auto simp: max_def intro: list_emb_Cons)
      then show ?thesis by blast
    next
      case False
      with t \<open>x \<noteq> y\<close> have "subseq t (x # xs) \<and> subseq t (y # ys) \<and> length t = lcsLen (x # xs) (y # ys)"
        by (auto simp: max_def intro: list_emb_Cons)
      then show ?thesis by blast
    qed
  qed
qed auto

lemma lcsLen_upper: "subseq s xs \<Longrightarrow> subseq s ys \<Longrightarrow> length s \<le> lcsLen xs ys"
proof (induction xs ys arbitrary: s rule: lcsLen.induct)
  case (1 ys)
  then show ?case by simp
next
  case (2 x xs)
  then show ?case by simp
next
  case (3 x xs y ys)
  show ?case
  proof (cases s)
    case Nil
    then show ?thesis by simp
  next
    case (Cons z s')
    show ?thesis
    proof (cases "x = y")
      case True
      show ?thesis
      proof (cases "z = x")
        case zx: True
        with 3(4,5) Cons True have "subseq s' xs" "subseq s' ys" by simp_all
        with 3(1)[OF True] have "length s' \<le> lcsLen xs ys" by blast
        with Cons True show ?thesis by simp
      next
        case zx: False
        with 3(4,5) Cons True have "subseq s xs" "subseq s ys" by simp_all
        with 3(1)[OF True] have "length s \<le> lcsLen xs ys" by blast
        with True show ?thesis by simp
      qed
    next
      case False
      show ?thesis
      proof (cases "z = x")
        case zx: True
        with 3(5) Cons False have "subseq s ys" by simp
        with 3(3)[OF False 3(4)] have "length s \<le> lcsLen (x # xs) ys" by blast
        with False show ?thesis by simp
      next
        case zx: False
        with 3(4) Cons have "subseq s xs" by simp
        with 3(2)[OF False _ 3(5)] have "length s \<le> lcsLen xs (y # ys)" by blast
        with False show ?thesis by simp
      qed
    qed
  qed
qed

lemma lcsLength_eq: "lcsLength A B = lcsLen A B"
  unfolding lcsLength_def
proof (rule Max_eqI)
  have "{s. subseq s A \<and> subseq s B} \<subseteq> set (subseqs A)" by auto
  then have "finite {s. subseq s A \<and> subseq s B}" by (rule finite_subset) simp
  then show "finite (length ` {s. subseq s A \<and> subseq s B})" by (rule finite_imageI)
next
  fix n assume "n \<in> length ` {s. subseq s A \<and> subseq s B}"
  then show "n \<le> lcsLen A B" by (auto intro: lcsLen_upper)
next
  from lcsLen_common[of A B] show "lcsLen A B \<in> length ` {s. subseq s A \<and> subseq s B}"
    by force
qed

text \<open>
  C3. For all token sequences \<open>A\<close> and \<open>B\<close>, the number of \<open>Eq\<close> operations in the edit script
  \<open>diffTokens A B\<close> is the length of a longest common subsequence of \<open>A\<close> and \<open>B\<close>.
\<close>

theorem diffTokens_lcs:
  "length (filter (\<lambda>x. type x = Eq) (diffTokens A B)) = lcsLength A B"
  using backtrack_eq_count[OF dpTable_inv, of 0 A 0 B]
  by (simp add: diffTokens_def lcsLength_eq)

text \<open>
  C4. For all token sequences \<open>A\<close> and \<open>B\<close>, the \<open>Eq\<close> and \<open>Del\<close> operations of
  \<open>diffTokens A B\<close> carry, in order, exactly the tokens of \<open>A\<close>, and its \<open>Eq\<close> and \<open>Ins\<close>
  operations carry, in order, exactly the tokens of \<open>B\<close>.
\<close>

theorem diffTokens_reconstructs:
  "map val (filter (\<lambda>x. type x = Eq \<or> type x = Del) (diffTokens A B)) = A \<and>
   map val (filter (\<lambda>x. type x = Eq \<or> type x = Ins) (diffTokens A B)) = B"
  using backtrack_base[of A B "dpTable A B" 0 0] backtrack_revised[of A B "dpTable A B" 0 0]
  by (simp add: diffTokens_def)

text \<open>
  C5. While backtracking at a position \<open>(i, j)\<close> whose tokens differ, if the longest common
  subsequence that remains after skipping the token of \<open>a\<close> is as long as the one that
  remains after skipping the token of \<open>b\<close>, the next operation is the deletion of \<open>a ! i\<close>
  and backtracking goes on at \<open>(i + 1, j)\<close>. In particular, for tokens \<open>B \<noteq> C\<close>, the script
  of \<open>[A, B]\<close> against \<open>[A, C]\<close> is \<open>Eq A\<close>, \<open>Del B\<close>, \<open>Ins C\<close>.
\<close>

theorem diffTokens_tie_break:
  "(i < length a \<and> j < length b \<and> a ! i \<noteq> b ! j \<and>
      lcsLength (drop (i + 1) a) (drop j b) = lcsLength (drop i a) (drop (j + 1) b)
    \<longrightarrow> backtrack a b (dpTable a b) i j = Op Del (a ! i) # backtrack a b (dpTable a b) (i + 1) j)
   \<and> (B \<noteq> C \<longrightarrow> diffTokens [A, B] [A, C] = [Op Eq A, Op Del B, Op Ins C])"
proof (intro conjI impI)
  assume h: "i < length a \<and> j < length b \<and> a ! i \<noteq> b ! j \<and>
      lcsLength (drop (i + 1) a) (drop j b) = lcsLength (drop i a) (drop (j + 1) b)"
  then have "dpTable a b ! (i + 1) ! j = dpTable a b ! i ! (j + 1)"
    by (simp add: dpTable_lcsLen lcsLength_eq)
  with h show "backtrack a b (dpTable a b) i j = Op Del (a ! i) # backtrack a b (dpTable a b) (i + 1) j"
    by (simp add: backtrack_step)
next
  assume ne: "B \<noteq> C"
  let ?a = "[A, B]" and ?b = "[A, C]"
  let ?dp = "dpTable ?a ?b"
  have tie: "?dp ! Suc (Suc 0) ! Suc 0 = 0" "?dp ! Suc 0 ! Suc (Suc 0) = 0"
    by (simp_all add: dpTable_lcsLen)
  have s0: "backtrack ?a ?b ?dp 0 0 = Op Eq A # backtrack ?a ?b ?dp (Suc 0) (Suc 0)"
    using backtrack_step[of 0 ?a 0 ?b ?dp] by simp
  have s1: "backtrack ?a ?b ?dp (Suc 0) (Suc 0) = Op Del B # backtrack ?a ?b ?dp (Suc (Suc 0)) (Suc 0)"
    using backtrack_step[of "Suc 0" ?a "Suc 0" ?b ?dp] ne tie by simp
  have s2: "backtrack ?a ?b ?dp (Suc (Suc 0)) (Suc 0) = [Op Ins C]"
    using backtrack_done[of "Suc (Suc 0)" ?a "Suc 0" ?b ?dp] by simp
  show "diffTokens ?a ?b = [Op Eq A, Op Del B, Op Ins C]"
    by (simp add: diffTokens_def s0 s1 s2)
qed

theorem diffTokens_tie_break_witness:
  "(1::nat) < length [js ''A'', js ''B''] \<and> (1::nat) < length [js ''A'', js ''C''] \<and>
   [js ''A'', js ''B''] ! 1 \<noteq> [js ''A'', js ''C''] ! 1 \<and>
   lcsLength (drop (1 + 1) [js ''A'', js ''B'']) (drop 1 [js ''A'', js ''C''])
     = lcsLength (drop 1 [js ''A'', js ''B'']) (drop (1 + 1) [js ''A'', js ''C'']) \<and>
   backtrack [js ''A'', js ''B''] [js ''A'', js ''C''] (dpTable [js ''A'', js ''B''] [js ''A'', js ''C'']) 1 1
     = Op Del (js ''B'') # backtrack [js ''A'', js ''B''] [js ''A'', js ''C''] (dpTable [js ''A'', js ''B''] [js ''A'', js ''C'']) (1 + 1) 1 \<and>
   js ''B'' \<noteq> js ''C'' \<and>
   diffTokens [js ''A'', js ''B''] [js ''A'', js ''C''] = [Op Eq (js ''A''), Op Del (js ''B''), Op Ins (js ''C'')]"
  using diffTokens_tie_break[of 1 "[js ''A'', js ''B'']" 1 "[js ''A'', js ''C'']" "js ''B''" "js ''C''" "js ''A''"]
  by (simp add: lcsLength_eq js_def)

section \<open>Properties of the run synthesizer and of paragraph diffing\<close>

lemma backtrack_same: "i \<le> length a \<Longrightarrow> backtrack a a dp i i = map (Op Eq) (drop i a)"
proof (induction "length a - i" arbitrary: i)
  case 0
  then show ?case by (simp add: backtrack_done)
next
  case (Suc n)
  then have lt: "i < length a" by simp
  then have d: "drop i a = a ! i # drop (i + 1) a" by (simp add: Cons_nth_drop_Suc)
  from Suc lt have "backtrack a a dp (i + 1) (i + 1) = map (Op Eq) (drop (i + 1) a)" by simp
  with lt show ?case by (simp add: backtrack_step d)
qed

lemma diffTokens_same: "diffTokens a a = map (Op Eq) a"
  using backtrack_same[of 0 a] by (simp add: diffTokens_def)

lemma flush_empty: "insBuf s = [] \<Longrightarrow> delBuf s = [] \<Longrightarrow> flush auth now s = s"
  by (simp add: flush_def)

lemma foldl_mergeStep_eq:
  "insBuf s = [] \<Longrightarrow> delBuf s = [] \<Longrightarrow>
   foldl (mergeStep auth now) s (map (Op Eq) ts)
     = s\<lparr> outRuns := outRuns s @ map (\<lambda>v. Obj [(js ''r'', plainRun v)]) ts \<rparr>"
proof (induction ts arbitrary: s)
  case Nil
  then show ?case by simp
next
  case (Cons t ts)
  let ?s = "s\<lparr> outRuns := outRuns s @ [Obj [(js ''r'', plainRun t)]] \<rparr>"
  have "mergeStep auth now s (Op Eq t) = ?s"
    using Cons.prems by (simp add: flush_empty)
  moreover have "insBuf ?s = []" "delBuf ?s = []" using Cons.prems by simp_all
  ultimately show ?case using Cons.IH[of ?s] by simp
qed

lemma mergeRuns_same:
  "mergeRuns (map (Op Eq) ts) auth now = map (\<lambda>v. Obj [(js ''r'', plainRun v)]) ts"
  by (simp add: mergeRuns_def foldl_mergeStep_eq flush_empty)

lemma nullishOr_plainRun: "nullishOr (plainRun v) X = plainRun v"
  by (simp add: nullishOr_def plainRun_def)

lemma diffParagraph_same:
  assumes "paragraphText p = Inr T"
  shows "diffParagraph p p auth opts now =
           Inr (if suppressWhitespaceOnly opts then p else perTokenParagraph p (granularity opts))"
  using assms
  by (simp add: diffParagraph_def diffTokens_same mergeRuns_same nullishOr_plainRun comp_def
      perTokenParagraph_def textOf_def Let_def)

lemma runsText_plain: "runsText (map plainRun ts) s = Inr (s @ concat ts)"
  by (induction ts arbitrary: s) (simp_all add: plainRun_def textNode_def js_def)

lemma paragraphText_perToken:
  assumes "paragraphText p = Inr T"
  shows "paragraphText (perTokenParagraph p g) = Inr T"
proof -
  have "concat (tokenize T g) = T"
    by (cases g) (simp_all add: tokenize_def concat_splitChars concat_tokenizeWords)
  with assms show ?thesis
    by (simp add: perTokenParagraph_def textOf_def update_conv' runsText_plain)
qed

lemma alignAt_same:
  assumes "i < length ps" "truthy (ps ! i) \<Longrightarrow> diffParagraph (ps ! i) (ps ! i) auth opts now = Inr (f (ps ! i))"
  shows "alignAt ps ps auth opts now i = Inr (map (\<lambda>p. Obj [(js ''p'', f p)]) (filter truthy [ps ! i]))"
  using assms by (simp add: alignAt_def idx_def falsy_def)

lemma alignLoop_same:
  assumes "\<And>p. p \<in> set ps \<Longrightarrow> truthy p \<Longrightarrow> diffParagraph p p auth opts now = Inr (f p)"
  shows "i \<le> length ps \<Longrightarrow>
     alignLoop ps ps auth opts now (length ps) i out
       = Inr (out @ map (\<lambda>p. Obj [(js ''p'', f p)]) (filter truthy (drop i ps)))"
proof (induction "length ps - i" arbitrary: i out)
  case 0
  then show ?case by (subst alignLoop.simps) simp
next
  case (Suc n)
  then have lt: "i < length ps" by simp
  then have d: "drop i ps = ps ! i # drop (i + 1) ps" by (simp add: Cons_nth_drop_Suc)
  have a: "alignAt ps ps auth opts now i = Inr (map (\<lambda>p. Obj [(js ''p'', f p)]) (filter truthy [ps ! i]))"
    using lt assms by (intro alignAt_same) simp_all
  have "alignLoop ps ps auth opts now (length ps) (i + 1) (out @ map (\<lambda>p. Obj [(js ''p'', f p)]) (filter truthy [ps ! i]))
     = Inr ((out @ map (\<lambda>p. Obj [(js ''p'', f p)]) (filter truthy [ps ! i])) @ map (\<lambda>p. Obj [(js ''p'', f p)]) (filter truthy (drop (i + 1) ps)))"
    using Suc lt by (intro Suc.hyps) simp_all
  with lt a show ?case
    by (subst alignLoop.simps) (simp add: d)
qed

lemma paragraphText_readable: "\<not> isl (paragraphText p) \<Longrightarrow> paragraphText p = Inr (textOf p)"
  by (cases "paragraphText p") (simp_all add: textOf_def)

text \<open>
  C1, as the program has it. Let every paragraph of the stripped document \<open>D\<close> have runs
  that can be read. Diffing \<open>D\<close> against itself gives a document with one paragraph for
  each paragraph of \<open>D\<close> that is not falsy, in order. With \<open>suppressWhitespaceOnly\<close> unset,
  such a paragraph has as \<^verbatim>\<open>r\<close> one plain run for each token of its text and nothing
  else, so no insertion and no deletion, and the text of these runs is the full text of
  the paragraph; the run count is the token count, not one. With \<open>suppressWhitespaceOnly\<close>
  set, the stripped paragraph is emitted as it is.
\<close>

theorem diffTrees_identity:
  assumes "\<forall>p \<in> set (paragraphsOf (stripTrackedChanges D)). truthy p \<longrightarrow> \<not> isl (paragraphText p)"
  shows "diffTrees D D auth opts now =
           Inr (docOut (map (\<lambda>p. Obj [(js ''p'', if suppressWhitespaceOnly opts then p
                                                   else perTokenParagraph p (granularity opts))])
                            (filter truthy (paragraphsOf (stripTrackedChanges D)))))
         \<and> (\<forall>p \<in> set (paragraphsOf (stripTrackedChanges D)). truthy p \<longrightarrow>
               paragraphText (perTokenParagraph p (granularity opts)) = Inr (textOf p))"
proof
  let ?ps = "paragraphsOf (stripTrackedChanges D)"
  let ?f = "\<lambda>p. if suppressWhitespaceOnly opts then p else perTokenParagraph p (granularity opts)"
  have "diffParagraph p p auth opts now = Inr (?f p)" if "p \<in> set ?ps" "truthy p" for p
    using that assms by (intro diffParagraph_same[of p "textOf p"] paragraphText_readable) simp
  then have "alignLoop ?ps ?ps auth opts now (length ?ps) 0 []
               = Inr ([] @ map (\<lambda>p. Obj [(js ''p'', ?f p)]) (filter truthy (drop 0 ?ps)))"
    by (intro alignLoop_same) simp_all
  then show "diffTrees D D auth opts now = Inr (docOut (map (\<lambda>p. Obj [(js ''p'', ?f p)]) (filter truthy ?ps)))"
    by (simp add: diffTrees_def)
next
  show "\<forall>p \<in> set (paragraphsOf (stripTrackedChanges D)). truthy p \<longrightarrow>
          paragraphText (perTokenParagraph p (granularity opts)) = Inr (textOf p)"
    using assms by (auto intro!: paragraphText_perToken paragraphText_readable)
qed

text \<open>
  An instance: two paragraphs, of three tokens and of one token.
\<close>

theorem diffTrees_identity_witness:
  "diffTrees (docOf (Arr [para ''Hello world'', para ''Bye''])) (docOf (Arr [para ''Hello world'', para ''Bye'']))
       (js ''AutoDiff'') (nodeOptions\<lparr>suppressWhitespaceOnly := False\<rparr>) (js ''2024-01-01T00:00:00.000Z'')
     = Inr (docOut [Obj [(js ''p'', Obj [(js ''r'', Arr [plainRun (js ''Hello''), plainRun (js '' ''), plainRun (js ''world'')])])],
                    Obj [(js ''p'', Obj [(js ''r'', Arr [plainRun (js ''Bye'')])])]])"
proof -
  let ?D = "docOf (Arr [para ''Hello world'', para ''Bye''])"
  let ?o = "nodeOptions\<lparr>suppressWhitespaceOnly := False\<rparr>"
  have h: "\<forall>p \<in> set (paragraphsOf (stripTrackedChanges ?D)). truthy p \<longrightarrow> \<not> isl (paragraphText p)"
    by code_simp
  have e: "map (\<lambda>p. Obj [(js ''p'', if suppressWhitespaceOnly ?o then p else perTokenParagraph p (granularity ?o))])
             (filter truthy (paragraphsOf (stripTrackedChanges ?D)))
           = [Obj [(js ''p'', Obj [(js ''r'', Arr [plainRun (js ''Hello''), plainRun (js '' ''), plainRun (js ''world'')])])],
              Obj [(js ''p'', Obj [(js ''r'', Arr [plainRun (js ''Bye'')])])]]"
    by code_simp
  from conjunct1[OF diffTrees_identity[OF h, of "js ''AutoDiff''" ?o "js ''2024-01-01T00:00:00.000Z''"]]
  show ?thesis by (simp only: e)
qed

text \<open>
  C1 as stated fails. With \<open>suppressWhitespaceOnly\<close> unset, the paragraph \<^verbatim>\<open>Hello world\<close>
  diffed against itself comes out as three plain runs, one for each token, and not as the
  single run \<^verbatim>\<open>Hello world\<close>. With the default options, a paragraph of two runs diffed
  against itself comes out with its two runs.
\<close>

theorem diffTrees_identity_counterexample:
  "diffTrees (docOf (para ''Hello world'')) (docOf (para ''Hello world''))
       (js ''AutoDiff'') (nodeOptions\<lparr>suppressWhitespaceOnly := False\<rparr>) (js ''2024-01-01T00:00:00.000Z'')
     = Inr (docOut [Obj [(js ''p'', Obj [(js ''r'', Arr [plainRun (js ''Hello''), plainRun (js '' ''), plainRun (js ''world'')])])]])
   \<and> diffTrees (docOf (para ''Hello world'')) (docOf (para ''Hello world''))
       (js ''AutoDiff'') (nodeOptions\<lparr>suppressWhitespaceOnly := False\<rparr>) (js ''2024-01-01T00:00:00.000Z'')
     \<noteq> Inr (docOut [Obj [(js ''p'', Obj [(js ''r'', Arr [plainRun (js ''Hello world'')])])]])
   \<and> diffTrees (docOf (para2 ''Hello'' ''world'')) (docOf (para2 ''Hello'' ''world''))
       (js ''AutoDiff'') nodeOptions (js ''2024-01-01T00:00:00.000Z'')
     = Inr (docOut [Obj [(js ''p'', para2 ''Hello'' ''world'')]])"
  by code_simp

text \<open>
  C7, as the program has it. With \<open>suppressWhitespaceOnly\<close> set, two paragraphs whose texts
  are equal after \<^verbatim>\<open>trim\<close>, that is up to white space at their two ends, give the revised
  paragraph as it is, with no tracked markup.
\<close>

theorem suppress_whitespace_only:
  "suppressWhitespaceOnly opts \<Longrightarrow> paragraphText baseP = Inr a \<Longrightarrow> paragraphText revP = Inr b \<Longrightarrow>
   trim a = trim b \<Longrightarrow> diffParagraph baseP revP auth opts now = Inr revP"
  by (simp add: diffParagraph_def)

text \<open>
  An instance: \<^verbatim>\<open>" Hello world "\<close> against \<^verbatim>\<open>"Hello world"\<close>.
\<close>

theorem suppress_whitespace_only_witness:
  "suppressWhitespaceOnly nodeOptions \<and>
   paragraphText (para '' Hello world '') = Inr (js '' Hello world '') \<and>
   paragraphText (para ''Hello world'') = Inr (js ''Hello world'') \<and>
   trim (js '' Hello world '') = trim (js ''Hello world'') \<and>
   diffParagraph (para '' Hello world '') (para ''Hello world'') (js ''AutoDiff'') nodeOptions (js ''2024-01-01T00:00:00.000Z'')
     = Inr (para ''Hello world'')"
proof -
  have h: "suppressWhitespaceOnly nodeOptions"
    "paragraphText (para '' Hello world '') = Inr (js '' Hello world '')"
    "paragraphText (para ''Hello world'') = Inr (js ''Hello world'')"
    "trim (js '' Hello world '') = trim (js ''Hello world'')"
    by code_simp+
  from suppress_whitespace_only[OF h] h show ?thesis by simp
qed

text \<open>
  C7 as stated fails: \<^verbatim>\<open>"Hello  world"\<close> and \<^verbatim>\<open>"Hello world"\<close> differ inside, \<^verbatim>\<open>trim\<close> leaves
  them different, and the token differ runs: the output has a deletion of the two spaces
  and an insertion of one space.
\<close>

theorem suppress_internal_spacing_counterexample:
  "diffParagraph (para ''Hello  world'') (para ''Hello world'') (js ''AutoDiff'') nodeOptions (js ''2024-01-01T00:00:00.000Z'')
     = Inr (Obj [(js ''r'', Arr [plainRun (js ''Hello''),
                                 tracked 1 ''AutoDiff'' ''2024-01-01T00:00:00.000Z'' (delTextRun (js ''  '')),
                                 tracked 2 ''AutoDiff'' ''2024-01-01T00:00:00.000Z'' (plainRun (js '' '')),
                                 plainRun (js ''world'')])])
   \<and> diffParagraph (para ''Hello  world'') (para ''Hello world'') (js ''AutoDiff'') nodeOptions (js ''2024-01-01T00:00:00.000Z'')
     \<noteq> Inr (para ''Hello world'')"
  by code_simp

section \<open>Properties of the revision stripper and of the paragraph aligner\<close>

text \<open>
  An object with a truthy \<^verbatim>\<open>ins\<close> property is replaced as a whole by the value of that
  property (or by its \<^verbatim>\<open>r\<close> array alone), whatever else the object holds.
\<close>

lemma strip_object_with_ins:
  "map_of kvs (js ''ins'') = Some c \<Longrightarrow> truthy c \<Longrightarrow>
   stripTrackedChanges (Obj kvs)
     = (if isArray (get c (js ''r'')) then Obj [(js ''r'', get c (js ''r''))] else c)"
  by (simp add: orElse_def)

text \<open>
  At an index with a paragraph on one side only, the output paragraph is the inner run of
  the wrapper that is built, and so does not depend on the author, the id or the clock.
\<close>

lemma buildInsRuns_inner:
  "idx (elems (get (get (buildInsRuns T auth n now) (js ''ins'')) (js ''r''))) 0 = plainRun T"
  by (simp add: buildInsRuns_def idx_def js_def)

lemma buildDelRuns_inner:
  "idx (elems (get (get (buildDelRuns T auth n now) (js ''del'')) (js ''r''))) 0 = delTextRun T"
  by (simp add: buildDelRuns_def idx_def js_def)

lemma alignAt_revised_only:
  "falsy (idx bs i) \<Longrightarrow> truthy (idx rs i) \<Longrightarrow> paragraphText (idx rs i) = Inr T \<Longrightarrow>
   alignAt bs rs auth opts now i = Inr [Obj [(js ''p'', Obj [(js ''r'', Arr [plainRun T])])]]"
  by (simp add: alignAt_def buildInsRuns_inner)

lemma alignAt_base_only:
  "truthy (idx bs i) \<Longrightarrow> falsy (idx rs i) \<Longrightarrow> paragraphText (idx bs i) = Inr T \<Longrightarrow>
   alignAt bs rs auth opts now i = Inr [Obj [(js ''p'', Obj [(js ''r'', Arr [delTextRun T])])]]"
  by (simp add: alignAt_def buildDelRuns_inner falsy_def)

text \<open>
  C8 fails on the program. The paragraph
  \<^verbatim>\<open><w:p><w:r><w:t>Hello</w:t></w:r><w:ins w:id="1"><w:r><w:t>world</w:t></w:r></w:ins></w:p>\<close>
  is parsed into an object with the keys \<^verbatim>\<open>r\<close> and \<^verbatim>\<open>ins\<close>. \<open>stripTrackedChanges\<close> tests the
  paragraph for the key \<^verbatim>\<open>ins\<close> and returns the value of that key in place of the whole
  paragraph: the plain sibling run \<^verbatim>\<open>Hello\<close> is gone, and the text of the paragraph is
  \<^verbatim>\<open>world\<close>, not \<^verbatim>\<open>Helloworld\<close>.
\<close>

theorem strip_drops_plain_sibling:
  "stripTrackedChanges
     (docOf (Obj [(js ''r'', Obj [(js ''t'', Str (js ''Hello''))]),
                  (js ''ins'', Obj [(js ''r'', Obj [(js ''t'', Str (js ''world''))]),
                                    (js ''id'', Str (js ''1''))])]))
   = docOf (Obj [(js ''r'', Obj [(js ''t'', Str (js ''world''))]), (js ''id'', Str (js ''1''))])
   \<and> paragraphText (Obj [(js ''r'', Obj [(js ''t'', Str (js ''world''))]), (js ''id'', Str (js ''1''))])
   = Inr (js ''world'')
   \<and> paragraphText (Obj [(js ''r'', Obj [(js ''t'', Str (js ''Hello''))]),
                  (js ''ins'', Obj [(js ''r'', Obj [(js ''t'', Str (js ''world''))]),
                                    (js ''id'', Str (js ''1''))])])
   = Inr (js ''Hello'')"
  by code_simp

text \<open>
  C6 fails on the program. For base \<open>[First]\<close> against revised \<open>[First, New]\<close> the second
  output paragraph is the one plain run \<^verbatim>\<open>New\<close>: the wrapper that \<open>buildInsRuns\<close> makes, with
  its id, author and date, is dropped by \<^verbatim>\<open>.ins.r[0]\<close>, and the output is the same tree as
  for the revised document against itself. For base \<open>[First, Old]\<close> against revised
  \<open>[First]\<close> the second output paragraph is one \<^verbatim>\<open>delText\<close> run, again with no wrapper.
\<close>

theorem unpaired_paragraph_marking:
  "diffTrees (docOf (para ''First'')) (docOf (Arr [para ''First'', para ''New'']))
       (js ''AutoDiff'') (nodeOptions\<lparr>suppressWhitespaceOnly := False\<rparr>) (js ''2024-01-01T00:00:00.000Z'')
     = Inr (docOut [Obj [(js ''p'', Obj [(js ''r'', Arr [plainRun (js ''First'')])])],
                    Obj [(js ''p'', Obj [(js ''r'', Arr [plainRun (js ''New'')])])]])
   \<and> diffTrees (docOf (Arr [para ''First'', para ''New''])) (docOf (Arr [para ''First'', para ''New'']))
       (js ''AutoDiff'') (nodeOptions\<lparr>suppressWhitespaceOnly := False\<rparr>) (js ''2024-01-01T00:00:00.000Z'')
     = Inr (docOut [Obj [(js ''p'', Obj [(js ''r'', Arr [plainRun (js ''First'')])])],
                    Obj [(js ''p'', Obj [(js ''r'', Arr [plainRun (js ''New'')])])]])
   \<and> diffTrees (docOf (Arr [para ''First'', para ''Old''])) (docOf (para ''First''))
       (js ''AutoDiff'') (nodeOptions\<lparr>suppressWhitespaceOnly := False\<rparr>) (js ''2024-01-01T00:00:00.000Z'')
     = Inr (docOut [Obj [(js ''p'', Obj [(js ''r'', Arr [plainRun (js ''First'')])])],
                    Obj [(js ''p'', Obj [(js ''r'', Arr [delTextRun (js ''Old'')])])]])"
  by code_simp

section \<open>Properties of the invocation\<close>

lemma diffParagraph_limits:
  "diffParagraph bp rp auth (opts\<lparr>limits := l\<rparr>) now = diffParagraph bp rp auth opts now"
  by (simp add: diffParagraph_def Let_def split: sum.splits)

lemma alignAt_limits:
  "alignAt bs rs auth (opts\<lparr>limits := l\<rparr>) now i = alignAt bs rs auth opts now i"
  by (simp add: alignAt_def diffParagraph_limits Let_def split: sum.splits)

lemma alignLoop_limits:
  "alignLoop bs rs auth (opts\<lparr>limits := l\<rparr>) now n i out = alignLoop bs rs auth opts now n i out"
proof (induction "n - i" arbitrary: i out)
  case 0
  then show ?case by (simp add: alignLoop.simps[of _ _ _ _ _ n i])
next
  case (Suc k)
  then have "alignLoop bs rs auth (opts\<lparr>limits := l\<rparr>) now n (i + 1) out'
               = alignLoop bs rs auth opts now n (i + 1) out'" for out'
    by simp
  then show ?case
    by (simp add: alignLoop.simps[of _ _ _ _ _ n i] alignAt_limits split: sum.splits)
qed

lemma diffTrees_limits:
  "diffTrees bd rd auth (opts\<lparr>limits := l\<rparr>) now = diffTrees bd rd auth opts now"
  by (simp add: diffTrees_def alignLoop_limits Let_def split: sum.splits)

lemma sizeLoop_maxEntrySize:
  "sizeLoop fs (lim\<lparr>maxEntrySize := x\<rparr>) t = sizeLoop fs lim t"
  by (induction fs arbitrary: t) (simp_all add: Let_def)

lemma safeLoadDocx_maxEntrySize:
  "safeLoadDocx E buf (lim\<lparr>maxEntrySize := x\<rparr>) = safeLoadDocx E buf lim"
  by (simp add: safeLoadDocx_def sizeLoop_maxEntrySize split: sum.splits)

lemma loadBoth_maxEntrySize:
  "loadBoth E b r (lim\<lparr>maxEntrySize := x\<rparr>) = loadBoth E b r lim"
  by (simp add: loadBoth_def safeLoadDocx_maxEntrySize split: sum.splits)

text \<open>
  C10. \<open>maxEntrySize\<close> is never consulted: with the same libraries, clock, packages and
  author, an invocation whose options differ from those of \<open>inp\<close> only in
  \<open>limits.maxEntrySize\<close> has the same outcome, the same error or the same buffer and
  warnings.
\<close>

theorem maxEntrySize_not_consulted:
  "docxDiffTracked E now
      (inp\<lparr>options := (options inp)\<lparr>limits := map_option (\<lambda>l. l\<lparr>maxEntrySize := x\<rparr>) (limits (options inp))\<rparr>\<rparr>)
   = docxDiffTracked E now inp"
proof (cases "limits (options inp)")
  case None
  then have "(options inp)\<lparr>limits := map_option (\<lambda>l. l\<lparr>maxEntrySize := x\<rparr>) (limits (options inp))\<rparr> = options inp"
    by simp
  then show ?thesis by simp
next
  case (Some l)
  from Some show ?thesis
    by (auto simp add: docxDiffTracked_def diffTrees_limits loadBoth_maxEntrySize Let_def
        split: sum.splits prod.splits)
qed

text \<open>
  An instance, in which both invocations return a package and no warning.
\<close>

theorem maxEntrySize_not_consulted_witness:
  "docxDiffTracked exampleEnv (js ''2024-01-01T00:00:00.000Z'')
      \<lparr> base = bytes ''<w:document/>'', revised = bytes ''<w:document/>'', author = js ''AutoDiff'',
        options = nodeOptions\<lparr>limits := Some (defaultLimits\<lparr>maxEntrySize := 1\<rparr>)\<rparr> \<rparr>
   = docxDiffTracked exampleEnv (js ''2024-01-01T00:00:00.000Z'')
      \<lparr> base = bytes ''<w:document/>'', revised = bytes ''<w:document/>'', author = js ''AutoDiff'',
        options = nodeOptions \<rparr>
   \<and> docxDiffTracked exampleEnv (js ''2024-01-01T00:00:00.000Z'')
      \<lparr> base = bytes ''<w:document/>'', revised = bytes ''<w:document/>'', author = js ''AutoDiff'',
        options = nodeOptions \<rparr>
   = Inr \<lparr> buffer = [], warnings = [] \<rparr>"
proof
  show "docxDiffTracked exampleEnv (js ''2024-01-01T00:00:00.000Z'')
      \<lparr> base = bytes ''<w:document/>'', revised = bytes ''<w:document/>'', author = js ''AutoDiff'',
        options = nodeOptions\<lparr>limits := Some (defaultLimits\<lparr>maxEntrySize := 1\<rparr>)\<rparr> \<rparr>
   = docxDiffTracked exampleEnv (js ''2024-01-01T00:00:00.000Z'')
      \<lparr> base = bytes ''<w:document/>'', revised = bytes ''<w:document/>'', author = js ''AutoDiff'',
        options = nodeOptions \<rparr>"
    using maxEntrySize_not_consulted[where E = exampleEnv and now = "js ''2024-01-01T00:00:00.000Z''"
      and inp = "\<lparr> base = bytes ''<w:document/>'', revised = bytes ''<w:document/>'', author = js ''AutoDiff'',
        options = nodeOptions \<rparr>" and x = 1]
    by (simp add: nodeOptions_def)
next
  show "docxDiffTracked exampleEnv (js ''2024-01-01T00:00:00.000Z'')
      \<lparr> base = bytes ''<w:document/>'', revised = bytes ''<w:document/>'', author = js ''AutoDiff'',
        options = nodeOptions \<rparr>
   = Inr \<lparr> buffer = [], warnings = [] \<rparr>"
    by code_simp
qed

text \<open>
  C9 fails on the program. When both archives load and \<^verbatim>\<open>word/document.xml\<close> of the base or
  of the revised package is present but the parser throws on its text, \<open>loadXml\<close> records
  the warning and returns \<^verbatim>\<open>null\<close>, and the invocation then fails with the error for a
  missing part: no package and no warning is returned.
\<close>

theorem malformed_document_aborts:
  assumes "loadBoth E (base inp) (revised inp)
             (case limits (options inp) of None \<Rightarrow> defaultLimits | Some l \<Rightarrow> l) = Inr (bz, rz)"
  shows "(zipFile bz (js ''word/document.xml'') = Some f \<and> content f = Inr xml \<and> parse E xml = None \<and>
          loadXml E rz (js ''word/document.xml'') [js ''Malformed word/document.xml; using raw fallback'']
            = Inr (rd, ws)
          \<longrightarrow> docxDiffTracked E now inp
                = Inl (Error (js ''Missing word/document.xml in one of the DOCX files'')))
       \<and> (loadXml E bz (js ''word/document.xml'') [] = Inr (bd, ws1) \<and>
          zipFile rz (js ''word/document.xml'') = Some g \<and> content g = Inr xml' \<and> parse E xml' = None
          \<longrightarrow> docxDiffTracked E now inp
                = Inl (Error (js ''Missing word/document.xml in one of the DOCX files'')))"
proof (intro conjI impI)
  assume h: "zipFile bz (js ''word/document.xml'') = Some f \<and> content f = Inr xml \<and> parse E xml = None \<and>
          loadXml E rz (js ''word/document.xml'') [js ''Malformed word/document.xml; using raw fallback'']
            = Inr (rd, ws)"
  then have "loadXml E bz (js ''word/document.xml'') []
               = Inr (Null, [js ''Malformed word/document.xml; using raw fallback''])"
    by (simp add: loadXml_def js_def)
  with assms h show "docxDiffTracked E now inp
                = Inl (Error (js ''Missing word/document.xml in one of the DOCX files''))"
    by (simp add: docxDiffTracked_def falsy_def)
next
  assume h: "loadXml E bz (js ''word/document.xml'') [] = Inr (bd, ws1) \<and>
          zipFile rz (js ''word/document.xml'') = Some g \<and> content g = Inr xml' \<and> parse E xml' = None"
  then have "loadXml E rz (js ''word/document.xml'') ws1
               = Inr (Null, ws1 @ [js ''Malformed word/document.xml; using raw fallback''])"
    by (simp add: loadXml_def js_def)
  with assms h show "docxDiffTracked E now inp
                = Inl (Error (js ''Missing word/document.xml in one of the DOCX files''))"
    by (simp add: docxDiffTracked_def falsy_def)
qed

text \<open>
  An instance: the text of the base document is an unterminated comment.
\<close>

theorem malformed_document_aborts_witness:
  "docxDiffTracked exampleEnv (js ''2024-01-01T00:00:00.000Z'')
      \<lparr> base = bytes ''<!--'', revised = bytes ''<w:document/>'', author = js ''AutoDiff'',
        options = nodeOptions \<rparr>
   = Inl (Error (js ''Missing word/document.xml in one of the DOCX files''))"
proof -
  let ?inp = "\<lparr> base = bytes ''<!--'', revised = bytes ''<w:document/>'', author = js ''AutoDiff'',
        options = nodeOptions \<rparr>"
  let ?f = "\<lparr> name = js ''word/document.xml'', dir = False, compressedSize = Some 4,
             content = Inr (js ''<!--'') \<rparr>"
  let ?g = "\<lparr> name = js ''word/document.xml'', dir = False, compressedSize = Some 13,
             content = Inr (js ''<w:document/>'') \<rparr>"
  have a: "loadBoth exampleEnv (base ?inp) (revised ?inp)
             (case limits (options ?inp) of None \<Rightarrow> defaultLimits | Some l \<Rightarrow> l) = Inr ([?f], [?g])"
    by code_simp
  have b: "zipFile [?f] (js ''word/document.xml'') = Some ?f \<and> content ?f = Inr (js ''<!--'') \<and>
           parse exampleEnv (js ''<!--'') = None \<and>
           loadXml exampleEnv [?g] (js ''word/document.xml'') [js ''Malformed word/document.xml; using raw fallback'']
             = Inr (docOf (para ''Hello''), [js ''Malformed word/document.xml; using raw fallback''])"
    by code_simp
  from conjunct1[OF malformed_document_aborts[OF a], rule_format, OF b] show ?thesis .
qed

end
